theory Spec2Isabelle
  imports Complex_Main "HOL-Library.Word"
begin

unbundle bit_operations_syntax

section \<open>Python strings\<close>

text \<open>
  A Python \<open>str\<close> is modelled as a \<open>string\<close> whose characters are the code points
  0..255, one \<open>char\<close> per code point, so \<open>length\<close> is Python's \<open>len\<close>. The
  character classes below are those of CPython for this range: \<open>str.isspace\<close>,
  \<open>str.split()\<close>, \<open>str.strip()\<close> and the regular expression class \<open>\s\<close> all use
  the same whitespace set (9-13, 28-32, 133, 160); \<open>\w\<close> is an alphanumeric character
  or the underscore.
\<close>

definition is_space :: "char \<Rightarrow> bool" where
  "is_space c =
     (let n = (of_char c :: nat)
      in (9 \<le> n \<and> n \<le> 13) \<or> (28 \<le> n \<and> n \<le> 32) \<or> n = 133 \<or> n = 160)"

definition is_word :: "char \<Rightarrow> bool" where
  "is_word c =
     (let n = (of_char c :: nat)
      in (48 \<le> n \<and> n \<le> 57) \<or> (65 \<le> n \<and> n \<le> 90) \<or> n = 95 \<or> (97 \<le> n \<and> n \<le> 122)
         \<or> n = 170 \<or> n = 178 \<or> n = 179 \<or> n = 181 \<or> n = 185 \<or> n = 186
         \<or> (188 \<le> n \<and> n \<le> 190) \<or> (192 \<le> n \<and> n \<le> 214) \<or> (216 \<le> n \<and> n \<le> 246)
         \<or> 248 \<le> n)"

definition newline :: char where
  "newline = CHR 0x0A"

text \<open>\<open>s.strip()\<close>: whitespace removed at both ends.\<close>

definition strip :: "string \<Rightarrow> string" where
  "strip s = rev (dropWhile is_space (rev (dropWhile is_space s)))"

text \<open>
  \<open>s.split()\<close> with no separator: the maximal runs of non-whitespace characters, in
  order; never an empty token. \<open>split_from cur s\<close> scans \<open>s\<close> with the token \<open>cur\<close>
  under construction.
\<close>

fun split_from :: "string \<Rightarrow> string \<Rightarrow> string list" where
  "split_from cur [] = (if cur = [] then [] else [cur])"
| "split_from cur (c # cs) =
     (if is_space c then (if cur = [] then split_from [] cs else cur # split_from [] cs)
      else split_from (cur @ [c]) cs)"

definition split_ws :: "string \<Rightarrow> string list" where
  "split_ws s = split_from [] s"

text \<open>\<open>s.split(sep)\<close> for a one-character separator: always at least one field.\<close>

fun split_on :: "char \<Rightarrow> string \<Rightarrow> string list" where
  "split_on sep [] = [[]]"
| "split_on sep (c # cs) =
     (if c = sep then [] # split_on sep cs
      else (case split_on sep cs of [] \<Rightarrow> [[c]] | x # xs \<Rightarrow> (c # x) # xs))"

text \<open>\<open>sep.join(parts)\<close>.\<close>

fun py_join :: "string \<Rightarrow> string list \<Rightarrow> string" where
  "py_join sep [] = []"
| "py_join sep [x] = x"
| "py_join sep (x # y # ys) = x @ sep @ py_join sep (y # ys)"

section \<open>config.py\<close>

definition DISPLAY_WIDTH :: int where "DISPLAY_WIDTH = 300"
definition DISPLAY_HEIGHT :: int where "DISPLAY_HEIGHT = 400"
definition DISPLAY_MARGIN :: int where "DISPLAY_MARGIN = 4"
definition CACHE_DIR :: string where "CACHE_DIR = ''~/.ebook_cache''"
definition BOOKMARK_DIR :: string where "BOOKMARK_DIR = ''~/.ebook_reader''"

section \<open>book.py: pagination\<close>

datatype py_error = ZeroDivisionError | FileNotFoundError

text \<open>
  The font object, as far as the paginator uses it: \<open>bbox_bottom\<close> is
  \<open>font.getbbox("Hg")[3]\<close> and \<open>getlength\<close> is \<open>font.getlength\<close>. Python floats are
  modelled as reals.
\<close>

record font =
  bbox_bottom :: int
  getlength :: "string \<Rightarrow> real"

text \<open>\<open>int(x)\<close> on a float truncates towards zero.\<close>

definition py_int :: "real \<Rightarrow> int" where
  "py_int x = (if 0 \<le> x then \<lfloor>x\<rfloor> else \<lceil>x\<rceil>)"

text \<open>
  The first five lines of both paginators. The division raises ZeroDivisionError when the
  line height is zero.
\<close>

definition max_lines_per_page :: "font \<Rightarrow> int \<Rightarrow> int \<Rightarrow> py_error + int" where
  "max_lines_per_page fnt H margin =
     (let line_height = bbox_bottom fnt + 1;
          footer_height = real_of_int line_height * 1.5;
          usable_height = real_of_int (H - (2 * margin)) - footer_height
      in if line_height = 0 then Inl ZeroDivisionError
         else Inr (py_int (usable_height / real_of_int line_height)))"

text \<open>\<open>test_line = f"{current_line} {word}".strip() if current_line else word\<close>\<close>

definition test_line :: "string \<Rightarrow> string \<Rightarrow> string" where
  "test_line current_line word =
     (if current_line \<noteq> [] then strip (current_line @ '' '' @ word) else word)"

text \<open>
  \<open>paginate_full\<close>, the loop over the words of one paragraph. The state is
  \<open>(current_line, all_lines)\<close>; \<open>budget\<close> is \<open>W - 2 * margin\<close>.
\<close>

fun full_words :: "font \<Rightarrow> int \<Rightarrow> string list \<Rightarrow> string \<times> string list \<Rightarrow> string \<times> string list" where
  "full_words fnt budget [] (current_line, all_lines) = (current_line, all_lines)"
| "full_words fnt budget (word # ws) (current_line, all_lines) =
     (let t = test_line current_line word;
          line_width = getlength fnt t
      in if line_width \<le> real_of_int budget then full_words fnt budget ws (t, all_lines)
         else full_words fnt budget ws
                (word, if current_line \<noteq> [] then all_lines @ [current_line] else all_lines))"

text \<open>\<open>paginate_full\<close>, the loop over the paragraphs; the state is \<open>all_lines\<close>.\<close>

fun full_paragraphs :: "font \<Rightarrow> int \<Rightarrow> string list \<Rightarrow> string list \<Rightarrow> string list" where
  "full_paragraphs fnt budget [] all_lines = all_lines"
| "full_paragraphs fnt budget (para # ps) all_lines =
     (let para' = strip para
      in if para' = [] then
           full_paragraphs fnt budget ps
             (if all_lines \<noteq> [] \<and> last all_lines \<noteq> [] then all_lines @ [[]] else all_lines)
         else
           (let words = split_ws para';
                (current_line, all_lines') = full_words fnt budget words ([], all_lines)
            in full_paragraphs fnt budget ps
                 (if current_line \<noteq> [] then all_lines' @ [current_line] else all_lines')))"

text \<open>
  The loop "Split into pages", the same text in both paginators. The state is
  \<open>(pages, current_page_lines)\<close>.
\<close>

fun split_pages :: "int \<Rightarrow> string list \<Rightarrow> string list list \<times> string list \<Rightarrow> string list list \<times> string list" where
  "split_pages m [] (pages, current_page_lines) = (pages, current_page_lines)"
| "split_pages m (line # ls) (pages, current_page_lines) =
     (if int (length current_page_lines) \<ge> m then
        (let (pages', current') =
               (if current_page_lines \<noteq> [] then (pages @ [current_page_lines], [])
                else (pages, current_page_lines))
         in if line = [] then split_pages m ls (pages', current')
            else split_pages m ls (pages', current' @ [line]))
      else split_pages m ls (pages, current_page_lines @ [line]))"

definition into_pages :: "int \<Rightarrow> string list \<Rightarrow> string list list" where
  "into_pages m all_lines =
     (let (pages, current_page_lines) = split_pages m all_lines ([], [])
      in if current_page_lines \<noteq> [] then pages @ [current_page_lines] else pages)"

text \<open>
  The loop "Clean up" of \<open>paginate_full\<close>: trailing blank lines are popped from every
  page and a page left empty is dropped.
\<close>

definition pop_blank :: "string list \<Rightarrow> string list" where
  "pop_blank page = rev (dropWhile (\<lambda>l. l = []) (rev page))"

definition clean_pages :: "string list list \<Rightarrow> string list list" where
  "clean_pages pages = filter (\<lambda>page. page \<noteq> []) (map pop_blank pages)"

definition paginate_full :: "string \<Rightarrow> font \<Rightarrow> int \<Rightarrow> int \<Rightarrow> int \<Rightarrow> py_error + string list list" where
  "paginate_full txt fnt W H margin =
     (case max_lines_per_page fnt H margin of
        Inl e \<Rightarrow> Inl e
      | Inr m \<Rightarrow>
          (let paragraphs = split_on newline txt;
               all_lines = full_paragraphs fnt (W - 2 * margin) paragraphs []
           in Inr (clean_pages (into_pages m all_lines))))"

text \<open>
  \<open>paginate_initial\<close>, the loop over the words of one paragraph, which stops (\<open>break\<close>)
  once \<open>lines_collected\<close> reaches \<open>max_initial_lines\<close>. The state is
  \<open>(current_line, all_lines, lines_collected)\<close>.
\<close>

fun initial_words ::
  "font \<Rightarrow> int \<Rightarrow> int \<Rightarrow> string list \<Rightarrow> string \<times> string list \<times> int \<Rightarrow> string \<times> string list \<times> int" where
  "initial_words fnt budget max_initial_lines [] st = st"
| "initial_words fnt budget max_initial_lines (word # ws) (current_line, all_lines, lines_collected) =
     (if lines_collected \<ge> max_initial_lines then (current_line, all_lines, lines_collected)
      else
        (let t = test_line current_line word;
             line_width = getlength fnt t
         in if line_width \<le> real_of_int budget then
              initial_words fnt budget max_initial_lines ws (t, all_lines, lines_collected)
            else if current_line \<noteq> [] then
              initial_words fnt budget max_initial_lines ws
                (word, all_lines @ [current_line], lines_collected + 1)
            else
              initial_words fnt budget max_initial_lines ws (word, all_lines, lines_collected)))"

text \<open>\<open>paginate_initial\<close>, the loop over the paragraphs; the state is
  \<open>(all_lines, lines_collected)\<close>.\<close>

fun initial_paragraphs ::
  "font \<Rightarrow> int \<Rightarrow> int \<Rightarrow> string list \<Rightarrow> string list \<times> int \<Rightarrow> string list \<times> int" where
  "initial_paragraphs fnt budget max_initial_lines [] st = st"
| "initial_paragraphs fnt budget max_initial_lines (para # ps) (all_lines, lines_collected) =
     (if lines_collected \<ge> max_initial_lines then (all_lines, lines_collected)
      else
        (let para' = strip para
         in if para' = [] then
              (if all_lines \<noteq> [] \<and> last all_lines \<noteq> [] then
                 initial_paragraphs fnt budget max_initial_lines ps
                   (all_lines @ [[]], lines_collected + 1)
               else initial_paragraphs fnt budget max_initial_lines ps (all_lines, lines_collected))
            else
              (let words = split_ws para';
                   (current_line, all_lines', lines_collected') =
                      initial_words fnt budget max_initial_lines words ([], all_lines, lines_collected)
               in if current_line \<noteq> [] \<and> lines_collected' < max_initial_lines then
                    initial_paragraphs fnt budget max_initial_lines ps
                      (all_lines' @ [current_line], lines_collected' + 1)
                  else initial_paragraphs fnt budget max_initial_lines ps (all_lines', lines_collected'))))"

definition paginate_initial :: "string \<Rightarrow> font \<Rightarrow> int \<Rightarrow> int \<Rightarrow> int \<Rightarrow> py_error + string list list" where
  "paginate_initial txt fnt W H margin =
     (case max_lines_per_page fnt H margin of
        Inl e \<Rightarrow> Inl e
      | Inr m \<Rightarrow>
          (let paragraphs = split_on newline txt;
               max_initial_lines = m * 50;
               (all_lines, lines_collected) =
                  initial_paragraphs fnt (W - 2 * margin) max_initial_lines paragraphs ([], 0);
               pages = into_pages m all_lines
           in Inr (if pages = [] then [[''Loading...'']] else pages)))"

text \<open>A fixed-pitch font for worked examples: every character is 10 units wide, lines
  are 18 units high.\<close>

definition mono_font :: font where
  "mono_font = \<lparr>bbox_bottom = 17, getlength = (\<lambda>s. real (10 * length s))\<rparr>"

section \<open>book.py: clean_text\<close>

text \<open>
  \<open>re.sub(pattern, repl, text)\<close> scans the text from left to right; where the pattern
  matches, the replacement is emitted and the scan resumes behind the match, otherwise
  one character is copied. A pattern with its replacement is given as a function that
  tells, for the text starting at the current position, whether the pattern matches there
  and, if so, the replacement and the number of characters matched. None of the five
  patterns of \<open>clean_text\<close> matches the empty string, so a match has at least one
  character.
\<close>

fun re_sub :: "(string \<Rightarrow> (string \<times> nat) option) \<Rightarrow> string \<Rightarrow> string" where
  "re_sub m [] = []"
| "re_sub m (c # cs) =
     (case m (c # cs) of
        None \<Rightarrow> c # re_sub m cs
      | Some (repl, n) \<Rightarrow> repl @ re_sub m (drop (n - 1) cs))"

definition apostrophe :: char where
  "apostrophe = CHR 0x27"

text \<open>
  Pattern \<open>(\w)'\s+(\w)\<close>, replacement \<open>\1'\2\<close>. The greedy \<open>\s+\<close> takes the whole run
  of whitespace: a shorter run would be followed by whitespace, which is not \<open>\w\<close>.
\<close>

definition apostrophe_word :: "string \<Rightarrow> (string \<times> nat) option" where
  "apostrophe_word s =
     (case s of
        c # q # r \<Rightarrow>
          (let ws = takeWhile is_space r
           in case dropWhile is_space r of
                [] \<Rightarrow> None
              | w # _ \<Rightarrow>
                  if is_word c \<and> q = apostrophe \<and> ws \<noteq> [] \<and> is_word w
                  then Some ([c, apostrophe, w], 3 + length ws) else None)
      | _ \<Rightarrow> None)"

text \<open>
  Pattern \<open>(\w)'\s+([tsmd])\b\<close> with \<open>re.IGNORECASE\<close>, replacement \<open>\1'\2\<close>. The
  boundary \<open>\b\<close> behind the letter holds at the end of the text or before a character
  that is not \<open>\w\<close>.
\<close>

definition apostrophe_tsmd :: "string \<Rightarrow> (string \<times> nat) option" where
  "apostrophe_tsmd s =
     (case s of
        c # q # r \<Rightarrow>
          (let ws = takeWhile is_space r
           in case dropWhile is_space r of
                [] \<Rightarrow> None
              | w # rest \<Rightarrow>
                  if is_word c \<and> q = apostrophe \<and> ws \<noteq> [] \<and> w \<in> set ''tsmdTSMD''
                     \<and> (case rest of [] \<Rightarrow> True | b # _ \<Rightarrow> \<not> is_word b)
                  then Some ([c, apostrophe, w], 3 + length ws) else None)
      | _ \<Rightarrow> None)"

text \<open>Pattern \<open>:\s+\<close>, replacement \<open>": "\<close>.\<close>

definition colon_spaces :: "string \<Rightarrow> (string \<times> nat) option" where
  "colon_spaces s =
     (case s of
        c # r \<Rightarrow>
          (let ws = takeWhile is_space r
           in if c = CHR '':'' \<and> ws \<noteq> [] then Some ('': '', 1 + length ws) else None)
      | [] \<Rightarrow> None)"

text \<open>Pattern \<open>\.\s{2,}\<close>, replacement \<open>". "\<close>.\<close>

definition period_spaces :: "string \<Rightarrow> (string \<times> nat) option" where
  "period_spaces s =
     (case s of
        c # r \<Rightarrow>
          (let ws = takeWhile is_space r
           in if c = CHR ''.'' \<and> length ws \<ge> 2 then Some (''. '', 1 + length ws) else None)
      | [] \<Rightarrow> None)"

text \<open>
  Pattern \<open>\n\s*\n\s*\n+\<close>, replacement two newlines. The pattern matches at a newline
  whose following run of whitespace holds at least two more newlines; since both
  \<open>\s*\<close> are greedy, the match then ends with the last newline of that run.
\<close>

definition blank_lines :: "string \<Rightarrow> (string \<times> nat) option" where
  "blank_lines s =
     (case s of
        c # r \<Rightarrow>
          (let ws = takeWhile is_space r;
               upto = rev (dropWhile (\<lambda>x. x \<noteq> newline) (rev ws))
           in if c = newline \<and> length (filter (\<lambda>x. x = newline) ws) \<ge> 2
              then Some ([newline, newline], 1 + length upto) else None)
      | [] \<Rightarrow> None)"

definition clean_text :: "string \<Rightarrow> string" where
  "clean_text txt =
     (let t1 = re_sub apostrophe_word txt;
          t2 = re_sub apostrophe_tsmd t1;
          t3 = re_sub colon_spaces t2;
          t4 = re_sub period_spaces t3;
          t5 = re_sub blank_lines t4
      in t5)"

text \<open>
  \<open>has_match m s\<close>: the pattern matches at some position of the text.
  \<open>space_after_apostrophe s\<close>: some apostrophe of the text is directly followed by
  whitespace; both apostrophe patterns need that.
\<close>

fun has_match :: "(string \<Rightarrow> (string \<times> nat) option) \<Rightarrow> string \<Rightarrow> bool" where
  "has_match m [] = False"
| "has_match m (c # cs) = (m (c # cs) \<noteq> None \<or> has_match m cs)"

fun space_after_apostrophe :: "string \<Rightarrow> bool" where
  "space_after_apostrophe [] = False"
| "space_after_apostrophe [c] = False"
| "space_after_apostrophe (c # d # cs) =
     ((c = apostrophe \<and> is_space d) \<or> space_after_apostrophe (d # cs))"

section \<open>hashlib.md5\<close>

text \<open>
  \<open>hashlib.md5(s.encode()).hexdigest()\<close>: the MD5 digest (RFC 1321) of the UTF-8
  encoding of \<open>s\<close>, as 32 lower-case hexadecimal digits.
\<close>

type_synonym u32 = "32 word"

definition md5_K :: "u32 list" where
  "md5_K =
    [0xd76aa478, 0xe8c7b756, 0x242070db, 0xc1bdceee, 0xf57c0faf, 0x4787c62a, 0xa8304613, 0xfd469501,
     0x698098d8, 0x8b44f7af, 0xffff5bb1, 0x895cd7be, 0x6b901122, 0xfd987193, 0xa679438e, 0x49b40821,
     0xf61e2562, 0xc040b340, 0x265e5a51, 0xe9b6c7aa, 0xd62f105d, 0x02441453, 0xd8a1e681, 0xe7d3fbc8,
     0x21e1cde6, 0xc33707d6, 0xf4d50d87, 0x455a14ed, 0xa9e3e905, 0xfcefa3f8, 0x676f02d9, 0x8d2a4c8a,
     0xfffa3942, 0x8771f681, 0x6d9d6122, 0xfde5380c, 0xa4beea44, 0x4bdecfa9, 0xf6bb4b60, 0xbebfbc70,
     0x289b7ec6, 0xeaa127fa, 0xd4ef3085, 0x04881d05, 0xd9d4d039, 0xe6db99e5, 0x1fa27cf8, 0xc4ac5665,
     0xf4292244, 0x432aff97, 0xab9423a7, 0xfc93a039, 0x655b59c3, 0x8f0ccc92, 0xffeff47d, 0x85845dd1,
     0x6fa87e4f, 0xfe2ce6e0, 0xa3014314, 0x4e0811a1, 0xf7537e82, 0xbd3af235, 0x2ad7d2bb, 0xeb86d391]"

definition md5_S :: "nat list" where
  "md5_S =
    [7, 12, 17, 22, 7, 12, 17, 22, 7, 12, 17, 22, 7, 12, 17, 22,
     5, 9, 14, 20, 5, 9, 14, 20, 5, 9, 14, 20, 5, 9, 14, 20,
     4, 11, 16, 23, 4, 11, 16, 23, 4, 11, 16, 23, 4, 11, 16, 23,
     6, 10, 15, 21, 6, 10, 15, 21, 6, 10, 15, 21, 6, 10, 15, 21]"

fun md5_round :: "u32 list \<Rightarrow> nat \<Rightarrow> u32 \<times> u32 \<times> u32 \<times> u32 \<Rightarrow> u32 \<times> u32 \<times> u32 \<times> u32" where
  "md5_round M i (A, B, C, D) =
     (let (F, g) =
            (if i < 16 then ((B AND C) OR (NOT B AND D), i)
             else if i < 32 then ((D AND B) OR (NOT D AND C), (5 * i + 1) mod 16)
             else if i < 48 then (B XOR C XOR D, (3 * i + 5) mod 16)
             else (C XOR (B OR NOT D), (7 * i) mod 16));
          F' = F + A + md5_K ! i + M ! g
      in (D, B + word_rotl (md5_S ! i) F', B, C))"

fun le_word :: "8 word list \<Rightarrow> u32" where
  "le_word [b0, b1, b2, b3] =
     ucast b0 OR push_bit 8 (ucast b1) OR push_bit 16 (ucast b2) OR push_bit 24 (ucast b3)"
| "le_word _ = 0"

fun chunks :: "nat \<Rightarrow> 'a list \<Rightarrow> 'a list list" where
  "chunks n [] = []"
| "chunks 0 xs = [xs]"
| "chunks n xs = take n xs # chunks n (drop n xs)"

definition md5_block :: "u32 \<times> u32 \<times> u32 \<times> u32 \<Rightarrow> 8 word list \<Rightarrow> u32 \<times> u32 \<times> u32 \<times> u32" where
  "md5_block st blk =
     (let M = map le_word (chunks 4 blk);
          (a0, b0, c0, d0) = st;
          (A, B, C, D) = fold (md5_round M) [0..<64] st
      in (a0 + A, b0 + B, c0 + C, d0 + D))"

definition md5_pad :: "8 word list \<Rightarrow> 8 word list" where
  "md5_pad msg =
     (let n = length msg;
          z = (55 + 64 - n mod 64) mod 64;
          bits = (of_nat (8 * n) :: 64 word)
      in msg @ [0x80] @ replicate z 0 @ map (\<lambda>k. ucast (drop_bit (8 * k) bits)) [0..<8])"

definition hex_byte :: "8 word \<Rightarrow> string" where
  "hex_byte b = [''0123456789abcdef'' ! (unat b div 16), ''0123456789abcdef'' ! (unat b mod 16)]"

definition le_bytes :: "u32 \<Rightarrow> 8 word list" where
  "le_bytes w = map (\<lambda>k. ucast (drop_bit (8 * k) w)) [0..<4]"

definition utf8 :: "char \<Rightarrow> 8 word list" where
  "utf8 c =
     (let n = (of_char c :: nat)
      in if n < 128 then [of_nat n] else [of_nat (192 + n div 64), of_nat (128 + n mod 64)])"

definition encode :: "string \<Rightarrow> 8 word list" where
  "encode s = concat (map utf8 s)"

definition md5_hexdigest :: "string \<Rightarrow> string" where
  "md5_hexdigest s =
     (let (a, b, c, d) = fold (\<lambda>blk st. md5_block st blk) (chunks 64 (md5_pad (encode s)))
                              (0x67452301, 0xefcdab89, 0x98badcfe, 0x10325476)
      in concat (map hex_byte (concat (map le_bytes [a, b, c, d]))))"

section \<open>The document source and the cache directory\<close>

text \<open>
  An EPUB as \<open>ebooklib\<close> and \<open>BeautifulSoup\<close> present it. A document item either
  raises while it is decoded and parsed (\<open>None\<close>) or yields its plain text
  (\<open>get_text(separator="\n")\<close>) and the texts of its \<open>h1\<close>-\<open>h3\<close> headings in
  order. An entry of the table of contents either has no \<open>title\<close> attribute
  (a nested section), or has one, which may be \<open>None\<close>.
\<close>

record doc_parse =
  get_text :: string
  headings :: "string list"

datatype epub_item = OtherItem | Document "doc_parse option"

datatype toc_entry = TocSection | TocLink "string option"

record epub_book =
  toc :: "toc_entry list"
  get_items :: "epub_item list"

text \<open>
  The pickled dictionary of a cache file, with its keys \<open>'text'\<close>, \<open>'pages'\<close>,
  \<open>'chapters'\<close>, \<open>'partial'\<close> and \<open>'book_path'\<close> (\<open>'timestamp'\<close>, the wall-clock
  time of the store, is never read and is left out). A cache file is \<open>Corrupt\<close> when
  reading it raises: an empty or truncated file, or anything that is not such a
  dictionary.
\<close>

record cache_data =
  cd_text :: string
  cd_pages :: "string list list"
  cd_chapters :: "string list"
  cd_partial :: bool
  cd_book_path :: string

datatype cache_file = Corrupt | Pickle cache_data

text \<open>The dictionary put on \<open>processing_queue\<close> when the full pass has finished.\<close>

record completion =
  q_book_path :: string
  q_pages :: "string list list"
  q_chapters :: "string list"

text \<open>\<open>os.stat(path)\<close>, with both fields as the f-string of the cache key prints them.\<close>

record file_stat =
  st_mtime :: string
  st_size :: string

text \<open>
  The closure \<open>process_full\<close> that \<open>extract_text_fast\<close> hands to a background
  thread: the variables it captures.
\<close>

record job =
  j_path :: string
  j_cache_file :: string
  j_cache_data :: cache_data
  j_chapters :: "string list"
  j_font :: font

text \<open>
  Everything outside the function that \<open>book.py\<close> reads or writes: whether the import
  of \<open>ebooklib\<close> succeeded, \<open>os.stat\<close> (\<open>None\<close>: it raises), \<open>epub.read_epub\<close>
  (\<open>Inl\<close>: it raises, with the message of the exception), the files of the cache
  directory by path, the module's \<open>processing_queue\<close>, and the background threads
  that have been started and have not run yet.
\<close>

record world =
  EBOOKLIB_AVAILABLE :: bool
  os_stat :: "string \<rightharpoonup> file_stat"
  read_epub :: "string \<Rightarrow> string + epub_book"
  files :: "string \<rightharpoonup> cache_file"
  processing_queue :: "completion list"
  threads :: "job list"

section \<open>book.py: extract_chapters_from_epub\<close>

text \<open>Method 1, the loop over \<open>book.toc\<close>.\<close>

fun toc_titles :: "toc_entry list \<Rightarrow> string list" where
  "toc_titles [] = []"
| "toc_titles (TocSection # es) = toc_titles es"
| "toc_titles (TocLink None # es) = toc_titles es"
| "toc_titles (TocLink (Some title) # es) =
     (if title \<noteq> [] \<and> strip title \<noteq> [] then strip title # toc_titles es else toc_titles es)"

text \<open>Method 2, the loop over the headings of one document and over the items.\<close>

definition heading_texts :: "string list \<Rightarrow> string list" where
  "heading_texts hs =
     filter (\<lambda>heading_text. heading_text \<noteq> [] \<and> length heading_text < 100) (map strip hs)"

fun heading_titles :: "epub_item list \<Rightarrow> string list" where
  "heading_titles [] = []"
| "heading_titles (OtherItem # is) = heading_titles is"
| "heading_titles (Document None # is) = heading_titles is"
| "heading_titles (Document (Some d) # is) = heading_texts (headings d) @ heading_titles is"

text \<open>"Clean up and deduplicate"; the state is \<open>(seen, cleaned_chapters)\<close>.\<close>

fun dedup :: "string list \<Rightarrow> string set \<times> string list \<Rightarrow> string set \<times> string list" where
  "dedup [] (seen, cleaned_chapters) = (seen, cleaned_chapters)"
| "dedup (chapter # cs) (seen, cleaned_chapters) =
     (let clean_chapter = strip chapter
      in if clean_chapter \<noteq> [] \<and> clean_chapter \<notin> seen
         then dedup cs (insert clean_chapter seen, cleaned_chapters @ [clean_chapter])
         else dedup cs (seen, cleaned_chapters))"

text \<open>The list \<open>chapters\<close> after both methods.\<close>

definition candidate_titles :: "epub_book \<Rightarrow> string list" where
  "candidate_titles book =
     (let chapters1 = toc_titles (toc book)
      in if chapters1 = [] \<or> length chapters1 < 5
         then chapters1 @ heading_titles (get_items book) else chapters1)"

definition chapters_of_book :: "epub_book \<Rightarrow> string list" where
  "chapters_of_book book =
     (let (seen, cleaned_chapters) = dedup (candidate_titles book) ({}, [])
      in take 20 cleaned_chapters)"

definition extract_chapters_from_epub :: "world \<Rightarrow> string \<Rightarrow> string list" where
  "extract_chapters_from_epub w book_path =
     (if \<not> EBOOKLIB_AVAILABLE w then []
      else case read_epub w book_path of
             Inl e \<Rightarrow> []
           | Inr book \<Rightarrow> chapters_of_book book)"

section \<open>book.py: extract_text_fast\<close>

text \<open>\<open>os.path.join(a, b)\<close> for two components.\<close>

definition os_path_join :: "string \<Rightarrow> string \<Rightarrow> string" where
  "os_path_join a b =
     (if b \<noteq> [] \<and> hd b = CHR ''/'' then b
      else if a = [] \<or> last a = CHR ''/'' then a @ b
      else a @ ''/'' @ b)"

text \<open>
  The cache file of a book: \<open>cache_key\<close> is made of the path, the modification time and
  the size; the file name is the first 16 hexadecimal digits of its MD5 digest.
  \<open>extract_text_fast\<close> is only ever called with the default \<open>cache_dir\<close> and no
  \<open>callback\<close>.
\<close>

definition cache_file_of :: "string \<Rightarrow> file_stat \<Rightarrow> string" where
  "cache_file_of path book_stat =
     (let cache_key = path @ ''_'' @ st_mtime book_stat @ ''_'' @ st_size book_stat;
          cache_hash = take 16 (md5_hexdigest cache_key)
      in os_path_join CACHE_DIR (cache_hash @ ''.pkl.gz''))"

text \<open>
  "Try cache first": a result is returned from the cache only when the file exists, can be
  read and is not marked partial.
\<close>

fun try_cache :: "cache_file option \<Rightarrow> (string \<times> string list list \<times> string list) option" where
  "try_cache None = None"
| "try_cache (Some Corrupt) = None"
| "try_cache (Some (Pickle cached_data)) =
     (if \<not> cd_partial cached_data
      then Some (cd_text cached_data, cd_pages cached_data, cd_chapters cached_data)
      else None)"

text \<open>
  \<open>with gzip.open(cache_file, 'wb') as f: pickle.dump(cache_data, f)\<close> writes the file in
  place: opening it for writing truncates it, then the dictionary is dumped into it.
  \<open>store_trace\<close> lists the states of the cache directory that the write goes through,
  \<open>store\<close> is the state it leaves.
\<close>

definition store_trace ::
  "string \<Rightarrow> cache_data \<Rightarrow> (string \<rightharpoonup> cache_file) \<Rightarrow> (string \<rightharpoonup> cache_file) list" where
  "store_trace cache_file cache_data fs =
     [fs(cache_file \<mapsto> Corrupt), fs(cache_file \<mapsto> Pickle cache_data)]"

definition store :: "string \<Rightarrow> cache_data \<Rightarrow> (string \<rightharpoonup> cache_file) \<Rightarrow> (string \<rightharpoonup> cache_file)" where
  "store cache_file cache_data fs = last (store_trace cache_file cache_data fs)"

text \<open>
  The loop of the quick pass over \<open>book.get_items()\<close>; the state is
  \<open>(parts, items_processed)\<close>. An item that is not a document is passed over, one
  that raises is skipped by \<open>continue\<close>.
\<close>

definition current_words :: "string list \<Rightarrow> nat" where
  "current_words parts = length (split_ws (py_join [newline] parts))"

fun quick_items :: "nat \<Rightarrow> epub_item list \<Rightarrow> string list \<times> nat \<Rightarrow> string list \<times> nat" where
  "quick_items target_words [] (parts, items_processed) = (parts, items_processed)"
| "quick_items target_words (OtherItem # is) (parts, items_processed) =
     quick_items target_words is (parts, items_processed)"
| "quick_items target_words (Document None # is) (parts, items_processed) =
     quick_items target_words is (parts, items_processed)"
| "quick_items target_words (Document (Some d) # is) (parts, items_processed) =
     (let parts' = parts @ [strip (get_text d)];
          items_processed' = items_processed + 1;
          words_so_far = current_words parts'
      in if words_so_far \<ge> target_words \<or> items_processed' \<ge> 30
         then (parts', items_processed')
         else quick_items target_words is (parts', items_processed'))"

text \<open>The loop of \<open>process_full\<close> over all items.\<close>

fun full_items :: "epub_item list \<Rightarrow> string list" where
  "full_items [] = []"
| "full_items (OtherItem # is) = full_items is"
| "full_items (Document None # is) = full_items is"
| "full_items (Document (Some d) # is) = strip (get_text d) # full_items is"

fun str_error :: "py_error \<Rightarrow> string" where
  "str_error ZeroDivisionError = ''float division by zero''"
| "str_error FileNotFoundError = ''No such file or directory''"

definition error_result :: "string \<Rightarrow> string \<times> string list list \<times> string list" where
  "error_result msg = (''Error loading book: '' @ msg, [[''Error loading book'']], [])"

text \<open>
  The \<open>try\<close> block of \<open>extract_text_fast\<close>: quick pass, store as partial, start the
  background thread. Every exception inside it ends in the \<open>except\<close> branch, which
  returns the error page.
\<close>

definition process_book ::
  "world \<Rightarrow> font \<Rightarrow> string \<Rightarrow> string \<Rightarrow> (string \<times> string list list \<times> string list) \<times> world" where
  "process_book w fnt path cache_file =
     (case read_epub w path of
        Inl msg \<Rightarrow> (error_result msg, w)
      | Inr book \<Rightarrow>
          (let chapters = extract_chapters_from_epub w path;
               (parts, items_processed) = quick_items 10000 (get_items book) ([], 0);
               initial_text = py_join [newline] parts;
               txt = clean_text initial_text
           in case paginate_initial txt fnt DISPLAY_WIDTH DISPLAY_HEIGHT DISPLAY_MARGIN of
                Inl e \<Rightarrow> (error_result (str_error e), w)
              | Inr pages \<Rightarrow>
                  (let cache_data = \<lparr>cd_text = txt, cd_pages = pages, cd_chapters = chapters,
                                     cd_partial = True, cd_book_path = path\<rparr>;
                       process_full = \<lparr>j_path = path, j_cache_file = cache_file,
                                       j_cache_data = cache_data, j_chapters = chapters,
                                       j_font = fnt\<rparr>
                   in ((txt, pages, chapters),
                       w\<lparr>files := store cache_file cache_data (files w),
                         threads := threads w @ [process_full]\<rparr>))))"

definition extract_text_fast ::
  "world \<Rightarrow> font \<Rightarrow> string \<Rightarrow> py_error + ((string \<times> string list list \<times> string list) \<times> world)" where
  "extract_text_fast w fnt path =
     (if \<not> EBOOKLIB_AVAILABLE w then
        Inr ((''Please install ebooklib: pip3 install ebooklib beautifulsoup4'',
              [[''Install ebooklib'']], []), w)
      else case os_stat w path of
             None \<Rightarrow> Inl FileNotFoundError
           | Some book_stat \<Rightarrow>
               (let cache_file = cache_file_of path book_stat
                in case try_cache (files w cache_file) of
                     Some cached \<Rightarrow> Inr (cached, w)
                   | None \<Rightarrow> Inr (process_book w fnt path cache_file)))"

text \<open>
  The body of \<open>process_full\<close>, run by a background thread. An exception (the book can no
  longer be read, the paginator raises) ends the thread: nothing is stored or published.
\<close>

definition run_process_full :: "job \<Rightarrow> world \<Rightarrow> world" where
  "run_process_full j w =
     (case read_epub w (j_path j) of
        Inl msg \<Rightarrow> w
      | Inr full_book \<Rightarrow>
          (let full_parts = full_items (get_items full_book);
               full_text = py_join [newline] full_parts;
               full_text_clean = clean_text full_text
           in case paginate_full full_text_clean (j_font j)
                     DISPLAY_WIDTH DISPLAY_HEIGHT DISPLAY_MARGIN of
                Inl e \<Rightarrow> w
              | Inr full_pages \<Rightarrow>
                  (let cache_data = (j_cache_data j)\<lparr>cd_text := full_text_clean,
                                       cd_pages := full_pages, cd_partial := False\<rparr>
                   in w\<lparr>files := store (j_cache_file j) cache_data (files w),
                        processing_queue := processing_queue w @
                          [\<lparr>q_book_path = j_path j, q_pages = full_pages,
                            q_chapters = j_chapters j\<rparr>]\<rparr>)))"

text \<open>One of the started threads runs to its end.\<close>

definition run_thread :: "nat \<Rightarrow> world \<Rightarrow> world" where
  "run_thread i w =
     (if i < length (threads w)
      then run_process_full (threads w ! i)
             (w\<lparr>threads := take i (threads w) @ drop (Suc i) (threads w)\<rparr>)
      else w)"

text \<open>\<open>processing_queue.get_nowait()\<close>, \<open>None\<close> when the queue is empty.\<close>

definition check_processing_complete :: "world \<Rightarrow> completion option \<times> world" where
  "check_processing_complete w =
     (case processing_queue w of
        [] \<Rightarrow> (None, w)
      | x # xs \<Rightarrow> (Some x, w\<lparr>processing_queue := xs\<rparr>))"

section \<open>main.py\<close>

text \<open>
  The book state of \<open>CompleteEReader\<close>. Rendering and the display are outside the
  model.
\<close>

record reader =
  book_path :: string
  pages :: "string list list"
  chapters :: "string list"
  current_page :: int

definition check_background_processing :: "reader \<Rightarrow> world \<Rightarrow> bool \<times> reader \<times> world" where
  "check_background_processing self w =
     (let (result, w') = check_processing_complete w
      in case result of
           None \<Rightarrow> (False, self, w')
         | Some r \<Rightarrow>
             if q_book_path r = book_path self then
               (let self1 = self\<lparr>pages := q_pages r, chapters := q_chapters r\<rparr>;
                    self2 = (if current_page self1 \<ge> int (length (pages self1))
                             then self1\<lparr>current_page := int (length (pages self1)) - 1\<rparr>
                             else self1)
                in (True, self2, w'))
             else (False, self, w'))"

text \<open>
  \<open>refresh_current_book\<close>: "Clear cache for this book", then "Reload book" and "Reset to
  page 1". The file it removes is named after the MD5 digest of \<open>self.book_path\<close>.
\<close>

definition refresh_current_book :: "reader \<Rightarrow> world \<Rightarrow> font \<Rightarrow> py_error + (reader \<times> world)" where
  "refresh_current_book self w fnt =
     (if book_path self = [] then Inr (self, w)
      else
        (let book_hash = take 16 (md5_hexdigest (book_path self));
             cache_file = os_path_join CACHE_DIR (book_hash @ ''.pkl.gz'');
             w1 = (if files w cache_file \<noteq> None
                   then w\<lparr>files := (files w)(cache_file := None)\<rparr> else w)
         in case extract_text_fast w1 fnt (book_path self) of
              Inl e \<Rightarrow> Inl e
            | Inr ((txt, pgs, chs), w2) \<Rightarrow>
                Inr (self\<lparr>pages := pgs, chapters := chs, current_page := 0\<rparr>, w2)))"

section \<open>bookmarks.py\<close>

text \<open>
  A bookmark file either cannot be parsed as JSON, or is a dictionary, whose keys
  \<open>'book_path'\<close> and \<open>'page_num'\<close> may be missing.
\<close>

datatype json_file = Unparsable | JsonDict "string option" "int option"

text \<open>
  A \<open>BookmarkManager\<close> with its surroundings: \<open>self.bookmark_dir\<close>, \<open>self._cache\<close>, the
  files of the bookmark directory, and the \<open>save\<close> threads that have been started and
  have not run yet, each with the \<open>book_path\<close> and \<open>page_num\<close> it captured.
\<close>

record bookmark_manager =
  bookmark_dir :: string
  cache :: "string \<rightharpoonup> int"
  bookmark_files :: "string \<rightharpoonup> json_file"
  save_threads :: "(string \<times> int) list"

definition get_bookmark_path :: "bookmark_manager \<Rightarrow> string \<Rightarrow> string" where
  "get_bookmark_path self bp =
     (let book_hash = take 16 (md5_hexdigest bp)
      in os_path_join (bookmark_dir self) (''bookmark_'' @ book_hash @ ''.json''))"

definition load_bookmark :: "bookmark_manager \<Rightarrow> string \<Rightarrow> int \<times> bookmark_manager" where
  "load_bookmark self bp =
     (case cache self bp of
        Some page \<Rightarrow> (page, self)
      | None \<Rightarrow>
          (case bookmark_files self (get_bookmark_path self bp) of
             Some (JsonDict (Some data_book_path) (Some page)) \<Rightarrow>
               if data_book_path = bp then (page, self\<lparr>cache := (cache self)(bp \<mapsto> page)\<rparr>)
               else (1, self)
           | _ \<Rightarrow> (1, self)))"

text \<open>\<open>save_bookmark_async\<close> only starts the thread; everything else happens in \<open>save\<close>.\<close>

definition save_bookmark_async :: "bookmark_manager \<Rightarrow> string \<Rightarrow> int \<Rightarrow> bookmark_manager" where
  "save_bookmark_async self bp page_num = self\<lparr>save_threads := save_threads self @ [(bp, page_num)]\<rparr>"

text \<open>
  How the durable write of one \<open>save\<close> ends: the file is written; or \<open>open\<close> raises and
  the file is untouched; or \<open>json.dump\<close> raises after \<open>open\<close> has truncated the file.
\<close>

datatype write_outcome = Written | OpenFailed | DumpFailed

text \<open>
  The body of \<open>save\<close>. The assignment to \<open>self._cache\<close> is the last statement of the
  \<open>try\<close> block, behind the write.
\<close>

fun save :: "write_outcome \<Rightarrow> string \<times> int \<Rightarrow> bookmark_manager \<Rightarrow> bookmark_manager" where
  "save Written (bp, page_num) self =
     self\<lparr>bookmark_files := (bookmark_files self)
               (get_bookmark_path self bp \<mapsto> JsonDict (Some bp) (Some page_num)),
          cache := (cache self)(bp \<mapsto> page_num)\<rparr>"
| "save OpenFailed (bp, page_num) self = self"
| "save DumpFailed (bp, page_num) self =
     self\<lparr>bookmark_files := (bookmark_files self)(get_bookmark_path self bp \<mapsto> Unparsable)\<rparr>"

text \<open>One of the started \<open>save\<close> threads runs to its end.\<close>

definition run_save :: "nat \<Rightarrow> write_outcome \<Rightarrow> bookmark_manager \<Rightarrow> bookmark_manager" where
  "run_save i outcome self =
     (if i < length (save_threads self)
      then save outcome (save_threads self ! i)
             (self\<lparr>save_threads := take i (save_threads self) @ drop (Suc i) (save_threads self)\<rparr>)
      else self)"

section \<open>Texts as characters followed by runs of whitespace\<close>






section \<open>Worked examples\<close>

text \<open>A book whose table of contents and headings repeat titles.\<close>

definition small_book :: epub_book where
  "small_book =
     \<lparr>toc = [TocLink (Some '' Preface ''), TocSection, TocLink None, TocLink (Some ''One'')],
      get_items = [OtherItem,
                   Document (Some \<lparr>get_text = ''Preface text'', headings = [''Preface'', ''Two '']\<rparr>),
                   Document None,
                   Document (Some \<lparr>get_text = '' One  two three '', headings = [''One'', ''Two'']\<rparr>)]\<rparr>"



text \<open>A bookmark manager that has seen nothing yet.\<close>

definition fresh_manager :: bookmark_manager where
  "fresh_manager = \<lparr>bookmark_dir = BOOKMARK_DIR, cache = Map.empty,
                     bookmark_files = Map.empty, save_threads = []\<rparr>"

text \<open>
  A book file with its \<open>os.stat\<close>, a finished (not partial) cache entry for it, a world
  in which that entry is in the cache directory under the name \<open>extract_text_fast\<close>
  computes, and a reader that has the book open.
\<close>

definition alice_path :: string where
  "alice_path = ''/home/pi/books/alice.epub''"

definition alice_stat :: file_stat where
  "alice_stat = \<lparr>st_mtime = ''1700000000.5'', st_size = ''123456''\<rparr>"

definition full_artifact :: cache_data where
  "full_artifact =
     \<lparr>cd_text = ''Preface text One two three'',
      cd_pages = [[''Preface text One two'', ''three'']],
      cd_chapters = [''Preface'', ''One'', ''Two''],
      cd_partial = False, cd_book_path = alice_path\<rparr>"

definition alice_world :: world where
  "alice_world =
     \<lparr>EBOOKLIB_AVAILABLE = True,
      os_stat = [alice_path \<mapsto> alice_stat],
      read_epub = (\<lambda>p. if p = alice_path then Inr small_book else Inl ''no such file''),
      files = [cache_file_of alice_path alice_stat \<mapsto> Pickle full_artifact],
      processing_queue = [],
      threads = []\<rparr>"

definition alice_reader :: reader where
  "alice_reader = \<lparr>book_path = alice_path, pages = cd_pages full_artifact,
                   chapters = cd_chapters full_artifact, current_page = 0\<rparr>"

text \<open>The same world with an empty cache directory.\<close>

definition uncached_world :: world where
  "uncached_world = alice_world\<lparr>files := Map.empty\<rparr>"

text \<open>An EPUB whose only document has no words (a book of pictures), never opened
  before.\<close>

definition wordless_book :: epub_book where
  "wordless_book = \<lparr>toc = [], get_items = [OtherItem, Document (Some \<lparr>get_text = '' '', headings = []\<rparr>)]\<rparr>"

definition wordless_world :: world where
  "wordless_world =
     \<lparr>EBOOKLIB_AVAILABLE = True,
      os_stat = [alice_path \<mapsto> alice_stat],
      read_epub = (\<lambda>p. if p = alice_path then Inr wordless_book else Inl ''no such file''),
      files = Map.empty,
      processing_queue = [],
      threads = []\<rparr>"

text \<open>Two paragraphs, the first with trailing spaces, three line breaks between them, and
  a last line of one word.\<close>

definition sample_text :: string where
  "sample_text = ''The quick brown fox jumps over the lazy dog  '' @ [newline, newline, newline]
                  @ '' and runs'' @ [newline] @ ''away''"

section \<open>Pagination of a text without lines\<close>

lemma paginate_initial_nonempty:
  "paginate_initial txt fnt W H margin = Inr pgs \<Longrightarrow> pgs \<noteq> []"
  by (auto simp: paginate_initial_def Let_def split: sum.splits prod.splits if_splits)

text \<open>
  Claim C2. Both paginators are said to return a single placeholder page, never an empty
  sequence, when no line is produced. On the empty text \<open>paginate_initial\<close> returns the
  placeholder page \<open>Loading...\<close>, but \<open>paginate_full\<close>, which has no such last step,
  returns the empty list of pages.
\<close>

theorem paginate_full_empty_text:
  "paginate_full '''' mono_font DISPLAY_WIDTH DISPLAY_HEIGHT DISPLAY_MARGIN = Inr []
   \<and> paginate_initial '''' mono_font DISPLAY_WIDTH DISPLAY_HEIGHT DISPLAY_MARGIN
       = Inr [[''Loading...'']]"
  by (simp add: paginate_full_def paginate_initial_def max_lines_per_page_def mono_font_def
      py_int_def clean_pages_def into_pages_def strip_def
      DISPLAY_WIDTH_def DISPLAY_HEIGHT_def DISPLAY_MARGIN_def)

section \<open>The reading position when the full pass arrives\<close>




text \<open>
  Claim C9. When the full page set replaces the partial one, the current page index should
  be kept if it is within the new bounds and clamped to the last page otherwise. For a book
  without words it is not: the quick pass shows the placeholder page, the background pass
  publishes an empty list of pages (the defect of \<open>paginate_full\<close> of claim C2), and
  \<open>check_background_processing\<close>, which has no lower bound, takes the reader from
  index 0 to index -1 of no pages.
\<close>

theorem full_pass_without_pages_leaves_index_minus_one:
  "(case extract_text_fast wordless_world mono_font alice_path of
      Inl e \<Rightarrow> False
    | Inr ((t, pgs, chs), w1) \<Rightarrow>
        pgs = [[''Loading...'']]
        \<and> (case check_background_processing
                   \<lparr>book_path = alice_path, pages = pgs, chapters = chs, current_page = 0\<rparr>
                   (run_thread 0 w1) of
             (ok, self', w2) \<Rightarrow> ok \<and> pages self' = [] \<and> current_page self' = - 1))"
  by code_simp

section \<open>Bookmarks\<close>

lemma cache_save_failed:
  "outcome \<noteq> Written \<Longrightarrow> cache (save outcome x s) = cache s"
  by (cases outcome; cases x) simp_all

lemma cache_run_save_failed:
  "outcome \<noteq> Written \<Longrightarrow> cache (run_save i outcome s) = cache s"
  by (simp add: run_save_def cache_save_failed)

lemma load_bookmark_cached:
  "cache s bp = Some p \<Longrightarrow> load_bookmark s bp = (p, s)"
  by (simp add: load_bookmark_def)

lemma run_save_last_written:
  "cache (run_save (length (save_threads s)) Written (save_bookmark_async s bp p)) bp = Some p"
  by (simp add: run_save_def save_bookmark_async_def)

lemma load_bookmark_ignores_threads:
  "fst (load_bookmark (s\<lparr>save_threads := ts\<rparr>) bp) = fst (load_bookmark s bp)"
  by (simp add: load_bookmark_def get_bookmark_path_def split: option.splits json_file.splits)

text \<open>
  Claim C4 says that a load right after \<open>save_bookmark_async\<close> returns the new page, also
  before the durable write has landed and when it fails. It does not: on a fresh manager, a
  load after saving page 7 returns the default 1, both while the \<open>save\<close> thread has not
  run and after it has run and \<open>open\<close> has failed.
\<close>

theorem load_after_save_async_stale:
  "fst (load_bookmark (save_bookmark_async fresh_manager ''/home/pi/books/alice.epub'' 7)
          ''/home/pi/books/alice.epub'') \<noteq> 7
   \<and> fst (load_bookmark
            (run_save 0 OpenFailed
               (save_bookmark_async fresh_manager ''/home/pi/books/alice.epub'' 7))
            ''/home/pi/books/alice.epub'') \<noteq> 7"
  by (simp add: load_bookmark_def save_bookmark_async_def fresh_manager_def run_save_def)

text \<open>
  Claim C4, amended. The in-memory value is assigned by the \<open>save\<close> thread, behind the
  durable write: once that thread has run and its write has succeeded, a load returns the
  saved page; until the thread runs, a load returns what it returned before the save; and
  when the write fails (\<open>open\<close> or \<open>json.dump\<close> raises) the in-memory value is left as it
  was.
\<close>

theorem load_after_save_landed:
  "fst (load_bookmark
          (run_save (length (save_threads self)) Written (save_bookmark_async self bp p)) bp) = p
   \<and> fst (load_bookmark (save_bookmark_async self bp p) bp) = fst (load_bookmark self bp)
   \<and> cache (run_save i OpenFailed (save_bookmark_async self bp p)) = cache self
   \<and> cache (run_save i DumpFailed (save_bookmark_async self bp p)) = cache self"
proof -
  have a: "fst (load_bookmark
                  (run_save (length (save_threads self)) Written (save_bookmark_async self bp p))
                  bp) = p"
    by (simp add: load_bookmark_cached [OF run_save_last_written])
  have b: "fst (load_bookmark (save_bookmark_async self bp p) bp) = fst (load_bookmark self bp)"
    unfolding save_bookmark_async_def by (rule load_bookmark_ignores_threads)
  have c: "cache (save_bookmark_async self bp p) = cache self"
    by (simp add: save_bookmark_async_def)
  show ?thesis using a b c by (simp add: cache_run_save_failed)
qed

theorem load_after_save_landed_witness:
  "fst (load_bookmark
          (run_save 0 Written (save_bookmark_async fresh_manager ''/home/pi/books/alice.epub'' 7))
          ''/home/pi/books/alice.epub'') = 7
   \<and> cache (run_save 0 DumpFailed
               (save_bookmark_async fresh_manager ''/home/pi/books/alice.epub'' 7))
        ''/home/pi/books/alice.epub'' = None"
  using load_after_save_landed [of fresh_manager "''/home/pi/books/alice.epub''" 7 0]
  by (simp add: fresh_manager_def)

section \<open>Chapter detection\<close>

lemma remdups_snoc: "remdups (ws @ [c]) = remdups (filter (\<lambda>y. y \<noteq> c) ws) @ [c]"
  by (induction ws) auto

lemma first_occurrences_Cons:
  "rev (remdups (rev (c # zs))) = c # rev (remdups (rev (filter (\<lambda>y. y \<noteq> c) zs)))"
  by (simp add: remdups_snoc rev_filter)

text \<open>
  The loop with the set \<open>seen\<close> keeps, of the trimmed non-empty titles, the first
  occurrence of each: \<open>remdups\<close> keeps the last occurrence, so on the reversed list it
  keeps the first.
\<close>

lemma dedup_first_occurrences:
  "snd (dedup xs (set acc, acc)) =
     acc @ rev (remdups (rev (filter (\<lambda>y. y \<notin> set acc)
                                (filter (\<lambda>t. t \<noteq> []) (map strip xs)))))"
proof (induction xs arbitrary: acc)
  case Nil
  then show ?case by simp
next
  case (Cons x xs)
  show ?case
  proof (cases "strip x \<noteq> [] \<and> strip x \<notin> set acc")
    case True
    have "snd (dedup (x # xs) (set acc, acc))
            = snd (dedup xs (set (acc @ [strip x]), acc @ [strip x]))"
      using True by (simp add: Let_def)
    also have "\<dots> = (acc @ [strip x]) @
                 rev (remdups (rev (filter (\<lambda>y. y \<notin> set (acc @ [strip x]))
                                      (filter (\<lambda>t. t \<noteq> []) (map strip xs)))))"
      by (rule Cons.IH)
    also have "\<dots> = acc @ rev (remdups (rev (filter (\<lambda>y. y \<notin> set acc)
                                  (filter (\<lambda>t. t \<noteq> []) (map strip (x # xs))))))"
    proof -
      have f: "filter (\<lambda>y. y \<notin> set acc) (filter (\<lambda>t. t \<noteq> []) (map strip (x # xs)))
                = strip x # filter (\<lambda>y. y \<notin> set acc) (filter (\<lambda>t. t \<noteq> []) (map strip xs))"
        using True by simp
      have g: "filter (\<lambda>y. y \<noteq> strip x) (filter (\<lambda>y. y \<notin> set acc) zs)
                = filter (\<lambda>y. y \<notin> set (acc @ [strip x])) zs" for zs
        by (induction zs) auto
      show ?thesis unfolding f first_occurrences_Cons g by simp
    qed
    finally show ?thesis .
  next
    case False
    then show ?thesis using Cons.IH [of acc] by (auto simp: Let_def)
  qed
qed

lemma chapters_of_book_eq:
  "chapters_of_book book =
     take 20 (rev (remdups (rev (filter (\<lambda>t. t \<noteq> []) (map strip (candidate_titles book))))))"
  using dedup_first_occurrences [of "candidate_titles book" "[]"]
  by (simp add: chapters_of_book_def case_prod_unfold)

lemma small_titles:
  "candidate_titles small_book = [''Preface'', ''One'', ''Preface'', ''Two'', ''One'', ''Two'']"
  by (simp add: candidate_titles_def small_book_def strip_def is_space_def heading_texts_def)

text \<open>
  Claim C10. For every document, \<open>extract_chapters_from_epub\<close> returns at most 20 titles
  without duplicates; when the book can be read, they are the first 20 of the trimmed,
  non-empty candidate titles with every repetition after the first occurrence removed, in
  the order of the first occurrences.
\<close>

theorem extract_chapters_at_most_20_distinct:
  "length (extract_chapters_from_epub w p) \<le> 20
   \<and> distinct (extract_chapters_from_epub w p)
   \<and> (EBOOKLIB_AVAILABLE w \<and> read_epub w p = Inr book \<longrightarrow>
        extract_chapters_from_epub w p =
          take 20 (rev (remdups (rev (filter (\<lambda>t. t \<noteq> [])
                                        (map strip (candidate_titles book)))))))"
  by (auto simp: extract_chapters_from_epub_def chapters_of_book_eq split: sum.splits)

theorem extract_chapters_small_book:
  "extract_chapters_from_epub alice_world alice_path = [''Preface'', ''One'', ''Two'']"
  using extract_chapters_at_most_20_distinct [of alice_world alice_path small_book]
  by (simp add: alice_world_def small_titles strip_def is_space_def)

section \<open>Refresh Book\<close>

lemma alice_cache_file:
  "cache_file_of alice_path alice_stat = ''~/.ebook_cache/cf6ea0152dd1d325.pkl.gz''"
  by code_simp

lemma alice_refresh_file:
  "os_path_join CACHE_DIR (take 16 (md5_hexdigest alice_path) @ ''.pkl.gz'')
     = ''~/.ebook_cache/b9f5808b7f27cc58.pkl.gz''"
  by code_simp

lemma alice_path_nonempty: "alice_path \<noteq> []"
  by (simp add: alice_path_def)

text \<open>
  Claim C1. After Refresh Book the cached artifact of the open book should be gone, so
  that the reopen starts from nothing and runs a fresh quick pass. With a finished cache
  entry for the open book, \<open>refresh_current_book\<close> leaves that entry in the cache
  directory (it removes the file named after the digest of the path alone, while the entry
  is stored under the digest of path, modification time and size), the reopen returns the
  cached pages, and no background pass is started.
\<close>

theorem refresh_keeps_cache_file:
  "(case refresh_current_book alice_reader alice_world mono_font of
      Inl e \<Rightarrow> False
    | Inr (self', w') \<Rightarrow>
        files w' (cache_file_of alice_path alice_stat) = Some (Pickle full_artifact)
        \<and> pages self' = cd_pages full_artifact
        \<and> threads w' = [])"
  by (simp add: refresh_current_book_def extract_text_fast_def alice_reader_def alice_world_def
       alice_cache_file alice_refresh_file full_artifact_def alice_path_nonempty)

section \<open>The quick pass\<close>

lemma quick_items_prefix:
  assumes "n = length parts"
  shows "\<exists>k\<le>length (full_items items).
           quick_items t items (parts, n) = (parts @ take k (full_items items), n + k)
           \<and> (\<forall>j. 0 < j \<and> j < k \<longrightarrow>
                  current_words (parts @ take j (full_items items)) < t \<and> n + j < 30)
           \<and> (k < length (full_items items) \<longrightarrow>
                  0 < k \<and> (current_words (parts @ take k (full_items items)) \<ge> t \<or> n + k \<ge> 30))"
  using assms
proof (induction t items "(parts, n)" arbitrary: parts n rule: quick_items.induct)
  case (1 t parts n)
  then show ?case by simp
next
  case (2 t "is" parts n)
  then show ?case by simp
next
  case (3 t "is" parts n)
  then show ?case by simp
next
  case (4 t d "is" parts n)
  let ?x = "strip (get_text d)"
  let ?dec = "full_items is"
  show ?case
  proof (cases "current_words (parts @ [?x]) \<ge> t \<or> n + 1 \<ge> 30")
    case True
    then have "quick_items t (Document (Some d) # is) (parts, n) = (parts @ take 1 (?x # ?dec), n + 1)"
      by (simp add: Let_def)
    moreover have "current_words (parts @ take 1 (?x # ?dec)) \<ge> t \<or> n + 1 \<ge> 30"
      using True by simp
    ultimately show ?thesis
      by (intro exI [of _ 1]) (auto simp del: take_Suc_Cons)
  next
    case False
    then have eq: "quick_items t (Document (Some d) # is) (parts, n) = quick_items t is (parts @ [?x], n + 1)"
      by (simp add: Let_def)
    have len: "n + 1 = length (parts @ [?x])" using 4(2) by simp
    have "\<exists>k\<le>length ?dec.
           quick_items t is (parts @ [?x], n + 1) = ((parts @ [?x]) @ take k ?dec, n + 1 + k)
           \<and> (\<forall>j. 0 < j \<and> j < k \<longrightarrow>
                  current_words ((parts @ [?x]) @ take j ?dec) < t \<and> n + 1 + j < 30)
           \<and> (k < length ?dec \<longrightarrow>
                  0 < k \<and> (current_words ((parts @ [?x]) @ take k ?dec) \<ge> t \<or> n + 1 + k \<ge> 30))"
      using False by (intro 4(1) [OF refl refl refl _ len]) simp
    then obtain k where k: "k \<le> length ?dec"
      "quick_items t is (parts @ [?x], n + 1) = ((parts @ [?x]) @ take k ?dec, n + 1 + k)"
      "\<forall>j. 0 < j \<and> j < k \<longrightarrow> current_words ((parts @ [?x]) @ take j ?dec) < t \<and> n + 1 + j < 30"
      "k < length ?dec \<longrightarrow> 0 < k \<and> (current_words ((parts @ [?x]) @ take k ?dec) \<ge> t \<or> n + 1 + k \<ge> 30)"
      by blast
    have step: "parts @ take (Suc j) (?x # ?dec) = (parts @ [?x]) @ take j ?dec" for j
      by simp
    have a: "\<forall>j. 0 < j \<and> j < Suc k \<longrightarrow>
                  current_words (parts @ take j (?x # ?dec)) < t \<and> n + j < 30"
    proof (intro allI impI)
      fix j assume j: "0 < j \<and> j < Suc k"
      then obtain j' where j': "j = Suc j'" by (cases j) auto
      show "current_words (parts @ take j (?x # ?dec)) < t \<and> n + j < 30"
      proof (cases "j' = 0")
        case True
        then show ?thesis using False j' by simp
      next
        case False
        then have "0 < j' \<and> j' < k" using j j' by simp
        then have "current_words ((parts @ [?x]) @ take j' ?dec) < t \<and> n + 1 + j' < 30"
          using k(3) by blast
        then show ?thesis unfolding j' step by simp
      qed
    qed
    have b: "Suc k < length (?x # ?dec) \<longrightarrow> 0 < Suc k \<and>
               (current_words (parts @ take (Suc k) (?x # ?dec)) \<ge> t \<or> n + Suc k \<ge> 30)"
      using k(4) unfolding step by simp
    have c: "quick_items t (Document (Some d) # is) (parts, n)
               = (parts @ take (Suc k) (?x # ?dec), n + Suc k)"
      unfolding eq k(2) step by simp
    have d: "Suc k \<le> length (?x # ?dec)" using k(1) by simp
    show ?thesis
      unfolding full_items.simps
      using a b c d by (intro exI [of _ "Suc k"]) blast
  qed
qed

lemma paginate_initial_total:
  "bbox_bottom fnt + 1 \<noteq> 0 \<Longrightarrow> \<exists>pgs. paginate_initial txt fnt W H margin = Inr pgs"
  by (simp add: paginate_initial_def max_lines_per_page_def Let_def case_prod_unfold)

lemma paginate_full_total:
  "bbox_bottom fnt + 1 \<noteq> 0 \<Longrightarrow> \<exists>pgs. paginate_full txt fnt W H margin = Inr pgs"
  by (simp add: paginate_full_def max_lines_per_page_def Let_def)

lemma quick_items_from_start:
  "\<exists>k\<le>length (full_items items).
      quick_items t items ([], 0) = (take k (full_items items), k)
      \<and> (\<forall>j. 0 < j \<and> j < k \<longrightarrow> current_words (take j (full_items items)) < t \<and> j < 30)
      \<and> (k < length (full_items items) \<longrightarrow>
            0 < k \<and> (current_words (take k (full_items items)) \<ge> t \<or> k \<ge> 30))"
  using quick_items_prefix [of 0 "[]" items t] by simp

text \<open>
  Claim C8. When the cache directory holds nothing for the book (and the book can be read
  and the font has a line height), \<open>extract_text_fast\<close> returns and stores as partial
  the cleaned text of the first \<open>k\<close> document items that could be decoded, in document
  order, where \<open>k\<close> is at most 30, no shorter prefix reached 10000 words, and the pass
  stopped before the end of the document only because \<open>k\<close> is 30 or the first \<open>k\<close>
  items reach 10000 words. Items that are no documents or that raise are passed over and
  not counted.
\<close>

theorem quick_pass_bounded:
  assumes "EBOOKLIB_AVAILABLE w" and "os_stat w path = Some st"
    and "files w (cache_file_of path st) = None"
    and "read_epub w path = Inr book"
    and "bbox_bottom fnt + 1 \<noteq> 0"
  shows "\<exists>k pgs w'.
           extract_text_fast w fnt path =
             Inr ((clean_text (py_join [newline] (take k (full_items (get_items book)))), pgs,
                   chapters_of_book book), w')
           \<and> files w' (cache_file_of path st) =
               Some (Pickle \<lparr>cd_text = clean_text (py_join [newline] (take k (full_items (get_items book)))),
                              cd_pages = pgs, cd_chapters = chapters_of_book book,
                              cd_partial = True, cd_book_path = path\<rparr>)
           \<and> k \<le> 30 \<and> k \<le> length (full_items (get_items book))
           \<and> (\<forall>j. 0 < j \<and> j < k \<longrightarrow>
                  current_words (take j (full_items (get_items book))) < 10000)
           \<and> (k < length (full_items (get_items book)) \<longrightarrow>
                  k = 30 \<or> current_words (take k (full_items (get_items book))) \<ge> 10000)"
proof -
  let ?dec = "full_items (get_items book)"
  from quick_items_from_start [of "get_items book" 10000]
  obtain k where k: "k \<le> length ?dec"
    "quick_items 10000 (get_items book) ([], 0) = (take k ?dec, k)"
    "\<forall>j. 0 < j \<and> j < k \<longrightarrow> current_words (take j ?dec) < 10000 \<and> j < 30"
    "k < length ?dec \<longrightarrow> 0 < k \<and> (current_words (take k ?dec) \<ge> 10000 \<or> k \<ge> 30)"
    by blast
  have k30: "k \<le> 30"
  proof (rule ccontr)
    assume "\<not> k \<le> 30"
    then have "0 < (30::nat) \<and> 30 < k" by simp
    with k(3) have "(30::nat) < 30" by blast
    then show False by simp
  qed
  obtain pgs where pgs:
    "paginate_initial (clean_text (py_join [newline] (take k ?dec))) fnt
       DISPLAY_WIDTH DISPLAY_HEIGHT DISPLAY_MARGIN = Inr pgs"
    using paginate_initial_total [OF assms(5)] by blast
  have ch: "extract_chapters_from_epub w path = chapters_of_book book"
    using assms(1,4) by (simp add: extract_chapters_from_epub_def)
  have j: "\<forall>j. 0 < j \<and> j < k \<longrightarrow> current_words (take j ?dec) < 10000"
    using k(3) by blast
  have l: "k < length ?dec \<longrightarrow> k = 30 \<or> current_words (take k ?dec) \<ge> 10000"
    using k(4) k30 by auto
  let ?cd = "\<lparr>cd_text = clean_text (py_join [newline] (take k ?dec)),
               cd_pages = pgs, cd_chapters = chapters_of_book book,
               cd_partial = True, cd_book_path = path\<rparr>"
  let ?w' = "w\<lparr>files := store (cache_file_of path st) ?cd (files w),
               threads := threads w @
                 [\<lparr>j_path = path, j_cache_file = cache_file_of path st, j_cache_data = ?cd,
                   j_chapters = chapters_of_book book, j_font = fnt\<rparr>]\<rparr>"
  have run: "extract_text_fast w fnt path =
     Inr ((clean_text (py_join [newline] (take k ?dec)), pgs, chapters_of_book book), ?w')"
    using assms(1-4) k(2) pgs ch
    by (simp add: extract_text_fast_def process_book_def Let_def)
  have stored: "files ?w' (cache_file_of path st) = Some (Pickle ?cd)"
    by (simp add: store_def store_trace_def)
  from run stored k(1) k30 j l show ?thesis by blast
qed

theorem quick_pass_bounded_witness:
  "\<exists>k pgs w'.
      extract_text_fast uncached_world mono_font alice_path =
        Inr ((clean_text (py_join [newline] (take k (full_items (get_items small_book)))), pgs,
              chapters_of_book small_book), w')
      \<and> k \<le> 30"
  using quick_pass_bounded [of uncached_world alice_path alice_stat small_book mono_font]
  by (simp add: uncached_world_def alice_world_def mono_font_def) blast

section \<open>Properties of the string functions\<close>

lemma split_ws_Nil [simp]: "split_ws [] = []"
  by (simp add: split_ws_def)

lemma split_from_append_space:
  "is_space sp \<Longrightarrow> split_from cur (xs @ sp # ys) = split_from cur xs @ split_ws ys"
  by (induction xs arbitrary: cur) (auto simp: split_ws_def)

lemma split_from_snoc_space:
  "is_space sp \<Longrightarrow> split_from cur (xs @ [sp]) = split_from cur xs"
  using split_from_append_space [of sp cur xs "[]"] by (simp add: split_ws_def)

lemma split_from_no_space:
  "\<forall>c\<in>set w. \<not> is_space c \<Longrightarrow> split_from cur w = (if cur @ w = [] then [] else [cur @ w])"
  by (induction w arbitrary: cur) auto

lemma split_ws_token:
  "w \<noteq> [] \<Longrightarrow> \<forall>c\<in>set w. \<not> is_space c \<Longrightarrow> split_ws w = [w]"
  by (simp add: split_ws_def split_from_no_space)

lemma split_ws_dropWhile: "split_ws (dropWhile is_space s) = split_ws s"
  by (induction s) (auto simp: split_ws_def)

lemma split_ws_rev_dropWhile: "split_ws (rev (dropWhile is_space (rev s))) = split_ws s"
proof (induction s rule: rev_induct)
  case Nil
  then show ?case by simp
next
  case (snoc x xs)
  then show ?case by (simp add: split_ws_def split_from_snoc_space)
qed

lemma split_ws_strip: "split_ws (strip s) = split_ws s"
  by (simp add: strip_def split_ws_rev_dropWhile split_ws_dropWhile)

lemma split_from_tokens:
  "\<forall>c\<in>set cur. \<not> is_space c \<Longrightarrow> w \<in> set (split_from cur s)
     \<Longrightarrow> w \<noteq> [] \<and> (\<forall>c\<in>set w. \<not> is_space c)"
proof (induction s arbitrary: cur)
  case Nil
  then show ?case by (auto split: if_splits)
next
  case (Cons a s)
  show ?case
  proof (cases "is_space a")
    case True
    then have "w = cur \<and> cur \<noteq> [] \<or> w \<in> set (split_from [] s)"
      using Cons.prems(2) by (auto split: if_splits)
    then show ?thesis
    proof
      assume "w = cur \<and> cur \<noteq> []"
      then show ?thesis using Cons.prems(1) by simp
    next
      assume "w \<in> set (split_from [] s)"
      then show ?thesis using Cons.IH [of "[]"] by simp
    qed
  next
    case False
    then have "w \<in> set (split_from (cur @ [a]) s)" using Cons.prems(2) by simp
    moreover have "\<forall>c\<in>set (cur @ [a]). \<not> is_space c" using False Cons.prems(1) by simp
    ultimately show ?thesis by (rule Cons.IH [rotated])
  qed
qed

lemma split_ws_tokens:
  "w \<in> set (split_ws s) \<Longrightarrow> w \<noteq> [] \<and> (\<forall>c\<in>set w. \<not> is_space c)"
  using split_from_tokens [of "[]" w s] by (simp add: split_ws_def)

lemma split_on_nonempty: "split_on sep s \<noteq> []"
  by (induction s) (auto split: list.splits)

lemma py_join_Cons_Cons: "py_join sep ((c # x) # xs) = c # py_join sep (x # xs)"
  by (cases xs) simp_all

lemma join_split_on: "py_join [sep] (split_on sep s) = s"
proof (induction s)
  case Nil
  then show ?case by simp
next
  case (Cons c cs)
  show ?case
  proof (cases "c = sep")
    case True
    then show ?thesis using Cons split_on_nonempty [of sep cs]
      by (cases "split_on sep cs") simp_all
  next
    case False
    then show ?thesis using Cons split_on_nonempty [of sep cs]
      by (cases "split_on sep cs") (simp_all add: py_join_Cons_Cons)
  qed
qed

lemma split_ws_join:
  "is_space sp \<Longrightarrow> split_ws (py_join [sp] xs) = concat (map split_ws xs)"
proof (induction "[sp]" xs rule: py_join.induct)
  case 1
  then show ?case by (simp add: split_ws_def)
next
  case (2 x)
  then show ?case by simp
next
  case (3 x y ys)
  then show ?case
    using split_from_append_space [of sp "[]" x "py_join [sp] (y # ys)"]
    by (simp add: split_ws_def)
qed

lemma is_space_newline: "is_space newline"
  by (simp add: is_space_def newline_def)

lemma words_of_paragraphs:
  "concat (map split_ws (split_on newline txt)) = split_ws txt"
  using split_ws_join [OF is_space_newline, of "split_on newline txt"]
  by (simp add: join_split_on)

section \<open>The words of the laid-out lines\<close>

lemma split_ws_test_line:
  assumes "w \<noteq> []" and "\<forall>c\<in>set w. \<not> is_space c"
  shows "split_ws (test_line cur w) = split_ws cur @ [w]"
proof (cases "cur = []")
  case True
  then show ?thesis using assms by (simp add: test_line_def split_ws_token)
next
  case False
  have "split_ws (cur @ CHR '' '' # w) = split_ws cur @ split_ws w"
    using split_from_append_space [of "CHR '' ''" "[]" cur w]
    by (simp add: split_ws_def is_space_def)
  then show ?thesis using False assms
    by (simp add: test_line_def split_ws_strip split_ws_token)
qed

lemma full_words_words:
  assumes "\<forall>w\<in>set ws. w \<noteq> [] \<and> (\<forall>c\<in>set w. \<not> is_space c)"
    and "full_words fnt b ws (cur, al) = (cur', al')"
  shows "concat (map split_ws al') @ split_ws cur' = concat (map split_ws al) @ split_ws cur @ ws"
  using assms
proof (induction ws arbitrary: cur al)
  case Nil
  then show ?case by simp
next
  case (Cons w ws)
  have t: "split_ws (test_line cur w) = split_ws cur @ [w]"
    using Cons.prems(1) by (intro split_ws_test_line) auto
  have w: "split_ws w = [w]" using Cons.prems(1) by (intro split_ws_token) auto
  have rest: "\<forall>w\<in>set ws. w \<noteq> [] \<and> (\<forall>c\<in>set w. \<not> is_space c)" using Cons.prems(1) by simp
  show ?case
  proof (cases "getlength fnt (test_line cur w) \<le> real_of_int b")
    case True
    then have "full_words fnt b ws (test_line cur w, al) = (cur', al')"
      using Cons.prems(2) by (simp add: Let_def)
    from Cons.IH [OF rest this] show ?thesis by (simp add: t)
  next
    case False
    then have "full_words fnt b ws (w, if cur \<noteq> [] then al @ [cur] else al) = (cur', al')"
      using Cons.prems(2) by (simp add: Let_def)
    from Cons.IH [OF rest this] show ?thesis by (auto simp: w)
  qed
qed

lemma full_paragraphs_words:
  "concat (map split_ws (full_paragraphs fnt b ps al))
     = concat (map split_ws al) @ concat (map split_ws ps)"
proof (induction ps arbitrary: al)
  case Nil
  then show ?case by simp
next
  case (Cons para ps)
  show ?case
  proof (cases "strip para = []")
    case True
    then have "split_ws para = []" using split_ws_strip [of para] by simp
    then show ?thesis using True Cons.IH by simp
  next
    case False
    obtain cur' al' where fw: "full_words fnt b (split_ws (strip para)) ([], al) = (cur', al')"
      by (cases "full_words fnt b (split_ws (strip para)) ([], al)") auto
    have "\<forall>w\<in>set (split_ws (strip para)). w \<noteq> [] \<and> (\<forall>c\<in>set w. \<not> is_space c)"
      using split_ws_tokens by blast
    from full_words_words [OF this fw]
    have "concat (map split_ws al') @ split_ws cur' = concat (map split_ws al) @ split_ws para"
      by (simp add: split_ws_strip)
    moreover have "cur' = [] \<Longrightarrow> split_ws cur' = []" by simp
    ultimately show ?thesis using False fw Cons.IH
      by (auto simp: Let_def)
  qed
qed

lemma split_pages_words:
  "split_pages m ls (pgs, cur) = (pgs', cur')
     \<Longrightarrow> concat (map split_ws (concat pgs' @ cur'))
           = concat (map split_ws (concat pgs @ cur)) @ concat (map split_ws ls)"
proof (induction ls arbitrary: pgs cur)
  case Nil
  then show ?case by simp
next
  case (Cons line ls)
  show ?case
  proof (cases "int (length cur) \<ge> m")
    case True
    show ?thesis
    proof (cases "line = []")
      case True
      with \<open>int (length cur) \<ge> m\<close> Cons.prems
      have "split_pages m ls (if cur \<noteq> [] then (pgs @ [cur], []) else (pgs, cur)) = (pgs', cur')"
        by (simp split: if_splits)
      then show ?thesis using Cons.IH True by (auto split: if_splits)
    next
      case False
      with \<open>int (length cur) \<ge> m\<close> Cons.prems
      have "split_pages m ls (if cur \<noteq> [] then (pgs @ [cur], [line]) else (pgs, cur @ [line])) = (pgs', cur')"
        by (simp split: if_splits)
      then show ?thesis using Cons.IH by (auto split: if_splits)
    qed
  next
    case False
    with Cons.prems have "split_pages m ls (pgs, cur @ [line]) = (pgs', cur')" by simp
    from Cons.IH [OF this] show ?thesis by simp
  qed
qed

lemma into_pages_words:
  "concat (map split_ws (concat (into_pages m ls))) = concat (map split_ws ls)"
proof -
  obtain pgs' cur' where sp: "split_pages m ls ([], []) = (pgs', cur')"
    by (cases "split_pages m ls ([], [])") auto
  from split_pages_words [OF sp] show ?thesis
    by (auto simp: into_pages_def sp)
qed

lemma pop_blank_words: "concat (map split_ws (pop_blank page)) = concat (map split_ws page)"
  unfolding pop_blank_def
  by (induction page rule: rev_induct) auto

lemma clean_pages_words:
  "concat (map split_ws (concat (clean_pages pgs))) = concat (map split_ws (concat pgs))"
proof (induction pgs)
  case Nil
  then show ?case by (simp add: clean_pages_def)
next
  case (Cons page pgs)
  have "concat (map split_ws (concat (clean_pages (page # pgs))))
          = concat (map split_ws (pop_blank page)) @ concat (map split_ws (concat (clean_pages pgs)))"
    by (simp add: clean_pages_def)
  then show ?case using Cons.IH by (simp add: pop_blank_words)
qed

lemma nonblank_words:
  "concat (map split_ws (filter (\<lambda>l. l \<noteq> []) ls)) = concat (map split_ws ls)"
  by (induction ls) auto

lemma sample_pages:
  "paginate_full sample_text mono_font DISPLAY_WIDTH DISPLAY_HEIGHT DISPLAY_MARGIN
     = Inr [[''The quick brown fox jumps'', ''over the lazy dog'', '''', ''and runs'', ''away'']]"
  by code_simp

lemma sample_words:
  "split_ws sample_text = [''The'', ''quick'', ''brown'', ''fox'', ''jumps'', ''over'', ''the'',
     ''lazy'', ''dog'', ''and'', ''runs'', ''away'']"
  by code_simp

text \<open>
  Claim C6. For every text and font for which \<open>paginate_full\<close> returns pages, the words
  of the non-blank lines of all pages, line after line and page after page, are exactly the
  words of the text (\<open>text.split()\<close>) in the same order; the same holds when the
  lines are first joined by line breaks and the result is split on whitespace.
\<close>

theorem paginate_full_coverage:
  assumes "paginate_full txt fnt W H margin = Inr pgs"
  shows "concat (map split_ws (filter (\<lambda>line. line \<noteq> []) (concat pgs))) = split_ws txt
       \<and> split_ws (py_join [newline] (filter (\<lambda>line. line \<noteq> []) (concat pgs))) = split_ws txt"
proof -
  obtain m where m: "max_lines_per_page fnt H margin = Inr m"
    and pgs: "pgs = clean_pages (into_pages m
                (full_paragraphs fnt (W - 2 * margin) (split_on newline txt) []))"
    using assms by (auto simp: paginate_full_def Let_def split: sum.splits)
  have "concat (map split_ws (concat pgs)) = split_ws txt"
    unfolding pgs
    by (simp add: clean_pages_words into_pages_words full_paragraphs_words words_of_paragraphs)
  then have a: "concat (map split_ws (filter (\<lambda>line. line \<noteq> []) (concat pgs))) = split_ws txt"
    by (simp add: nonblank_words)
  then show ?thesis by (simp add: split_ws_join is_space_newline)
qed

theorem paginate_full_coverage_witness:
  "paginate_full sample_text mono_font DISPLAY_WIDTH DISPLAY_HEIGHT DISPLAY_MARGIN
     = Inr [[''The quick brown fox jumps'', ''over the lazy dog'', '''', ''and runs'', ''away'']]
   \<and> concat (map split_ws [''The quick brown fox jumps'', ''over the lazy dog'', ''and runs'', ''away''])
       = split_ws sample_text"
  using paginate_full_coverage [OF sample_pages] sample_pages by simp

section \<open>The width of the laid-out lines\<close>

lemma full_words_width:
  assumes "\<forall>w\<in>set ws. getlength fnt w \<le> real_of_int b"
    and "cur = [] \<or> getlength fnt cur \<le> real_of_int b"
    and "\<forall>l\<in>set al. l = [] \<or> getlength fnt l \<le> real_of_int b"
    and "full_words fnt b ws (cur, al) = (cur', al')"
  shows "(cur' = [] \<or> getlength fnt cur' \<le> real_of_int b)
       \<and> (\<forall>l\<in>set al'. l = [] \<or> getlength fnt l \<le> real_of_int b)"
  using assms
proof (induction ws arbitrary: cur al)
  case Nil
  then show ?case by simp
next
  case (Cons w ws)
  have rest: "\<forall>w\<in>set ws. getlength fnt w \<le> real_of_int b" using Cons.prems(1) by simp
  show ?case
  proof (cases "getlength fnt (test_line cur w) \<le> real_of_int b")
    case True
    then have "full_words fnt b ws (test_line cur w, al) = (cur', al')"
      using Cons.prems(4) by (simp add: Let_def)
    from Cons.IH [OF rest _ Cons.prems(3) this] True show ?thesis by simp
  next
    case False
    then have run: "full_words fnt b ws (w, if cur \<noteq> [] then al @ [cur] else al) = (cur', al')"
      using Cons.prems(4) by (simp add: Let_def)
    have "w = [] \<or> getlength fnt w \<le> real_of_int b" using Cons.prems(1) by simp
    moreover have "\<forall>l\<in>set (if cur \<noteq> [] then al @ [cur] else al).
                      l = [] \<or> getlength fnt l \<le> real_of_int b"
      using Cons.prems(2,3) by auto
    ultimately show ?thesis using Cons.IH [OF rest _ _ run] by blast
  qed
qed

lemma full_paragraphs_width:
  assumes "\<forall>para\<in>set ps. \<forall>w\<in>set (split_ws para). getlength fnt w \<le> real_of_int b"
    and "\<forall>l\<in>set al. l = [] \<or> getlength fnt l \<le> real_of_int b"
  shows "\<forall>l\<in>set (full_paragraphs fnt b ps al). l = [] \<or> getlength fnt l \<le> real_of_int b"
  using assms
proof (induction ps arbitrary: al)
  case Nil
  then show ?case by simp
next
  case (Cons para ps)
  have rest: "\<forall>para\<in>set ps. \<forall>w\<in>set (split_ws para). getlength fnt w \<le> real_of_int b"
    using Cons.prems(1) by simp
  show ?case
  proof (cases "strip para = []")
    case True
    have "\<forall>l\<in>set (if al \<noteq> [] \<and> last al \<noteq> [] then al @ [[]] else al).
            l = [] \<or> getlength fnt l \<le> real_of_int b"
      using Cons.prems(2) by auto
    from Cons.IH [OF rest this] True show ?thesis by simp
  next
    case False
    obtain cur' al' where fw: "full_words fnt b (split_ws (strip para)) ([], al) = (cur', al')"
      by (cases "full_words fnt b (split_ws (strip para)) ([], al)") auto
    have "\<forall>w\<in>set (split_ws (strip para)). getlength fnt w \<le> real_of_int b"
      using Cons.prems(1) by (simp add: split_ws_strip)
    from full_words_width [OF this _ Cons.prems(2) fw]
    have "\<forall>l\<in>set (if cur' \<noteq> [] then al' @ [cur'] else al').
            l = [] \<or> getlength fnt l \<le> real_of_int b"
      by auto
    from Cons.IH [OF rest this] False fw show ?thesis by (simp add: Let_def)
  qed
qed

lemma split_pages_lines:
  "split_pages m ls (pgs, cur) = (pgs', cur')
     \<Longrightarrow> set (concat pgs' @ cur') \<subseteq> set (concat pgs @ cur) \<union> set ls"
proof (induction ls arbitrary: pgs cur)
  case Nil
  then show ?case by simp
next
  case (Cons line ls)
  show ?case
  proof (cases "int (length cur) \<ge> m")
    case True
    show ?thesis
    proof (cases "line = []")
      case True
      with \<open>int (length cur) \<ge> m\<close> Cons.prems
      have "split_pages m ls (if cur \<noteq> [] then (pgs @ [cur], []) else (pgs, cur)) = (pgs', cur')"
        by (simp split: if_splits)
      then show ?thesis using Cons.IH by (fastforce split: if_splits)
    next
      case False
      with \<open>int (length cur) \<ge> m\<close> Cons.prems
      have "split_pages m ls (if cur \<noteq> [] then (pgs @ [cur], [line]) else (pgs, cur @ [line])) = (pgs', cur')"
        by (simp split: if_splits)
      then show ?thesis using Cons.IH by (fastforce split: if_splits)
    qed
  next
    case False
    with Cons.prems have "split_pages m ls (pgs, cur @ [line]) = (pgs', cur')" by simp
    from Cons.IH [OF this] show ?thesis by auto
  qed
qed

lemma into_pages_lines: "set (concat (into_pages m ls)) \<subseteq> set ls"
proof -
  obtain pgs' cur' where sp: "split_pages m ls ([], []) = (pgs', cur')"
    by (cases "split_pages m ls ([], [])") auto
  from split_pages_lines [OF sp] show ?thesis
    by (auto simp: into_pages_def sp)
qed

lemma pop_blank_lines: "set (pop_blank page) \<subseteq> set page"
  unfolding pop_blank_def using set_dropWhileD by fastforce

lemma clean_pages_lines: "set (concat (clean_pages pgs)) \<subseteq> set (concat pgs)"
  using pop_blank_lines by (fastforce simp: clean_pages_def)

lemma paragraph_words:
  "para \<in> set (split_on newline txt) \<Longrightarrow> set (split_ws para) \<subseteq> set (split_ws txt)"
proof -
  assume "para \<in> set (split_on newline txt)"
  then have "set (split_ws para) \<subseteq> set (concat (map split_ws (split_on newline txt)))"
    by auto
  then show ?thesis by (simp add: words_of_paragraphs)
qed

text \<open>
  Claim C7. If every word of the text measures at most \<open>W - 2 * margin\<close>, then every
  non-blank line on every page returned by \<open>paginate_full\<close> measures at most
  \<open>W - 2 * margin\<close>.
\<close>

theorem paginate_full_line_width:
  assumes "\<forall>word\<in>set (split_ws txt). getlength fnt word \<le> real_of_int (W - 2 * margin)"
    and "paginate_full txt fnt W H margin = Inr pgs"
  shows "\<forall>page\<in>set pgs. \<forall>line\<in>set page.
           line \<noteq> [] \<longrightarrow> getlength fnt line \<le> real_of_int (W - 2 * margin)"
proof -
  let ?b = "W - 2 * margin"
  let ?al = "full_paragraphs fnt ?b (split_on newline txt) []"
  obtain m where pgs: "pgs = clean_pages (into_pages m ?al)"
    using assms(2) by (auto simp: paginate_full_def Let_def split: sum.splits)
  have "\<forall>para\<in>set (split_on newline txt). \<forall>w\<in>set (split_ws para). getlength fnt w \<le> real_of_int ?b"
    using assms(1) paragraph_words by blast
  then have al: "\<forall>l\<in>set ?al. l = [] \<or> getlength fnt l \<le> real_of_int ?b"
    by (intro full_paragraphs_width) simp_all
  have "set (concat pgs) \<subseteq> set ?al"
    unfolding pgs using clean_pages_lines into_pages_lines by blast
  then show ?thesis using al by auto
qed

theorem paginate_full_line_width_witness:
  "getlength mono_font ''The quick brown fox jumps'' \<le> real_of_int (DISPLAY_WIDTH - 2 * DISPLAY_MARGIN)
   \<and> getlength mono_font ''over the lazy dog'' \<le> real_of_int (DISPLAY_WIDTH - 2 * DISPLAY_MARGIN)
   \<and> getlength mono_font ''and runs'' \<le> real_of_int (DISPLAY_WIDTH - 2 * DISPLAY_MARGIN)
   \<and> getlength mono_font ''away'' \<le> real_of_int (DISPLAY_WIDTH - 2 * DISPLAY_MARGIN)"
proof -
  have "\<forall>word\<in>set (split_ws sample_text).
          getlength mono_font word \<le> real_of_int (DISPLAY_WIDTH - 2 * DISPLAY_MARGIN)"
    by (simp add: sample_words mono_font_def DISPLAY_WIDTH_def DISPLAY_MARGIN_def)
  from paginate_full_line_width [OF this sample_pages] show ?thesis by simp
qed

section \<open>The normalizer\<close>









lemma space_not_apostrophe: "is_space c \<Longrightarrow> c \<noteq> apostrophe"
  by (auto simp: is_space_def apostrophe_def)





subsection \<open>The colon rule and the period rule\<close>






subsection \<open>The blank-line rule\<close>


















subsection \<open>One pass and two passes\<close>











subsection \<open>The apostrophe rules\<close>









lemma clean_text_sample: "clean_text (''Note:   see p. 3.   End'' @ [newline, CHR '' '', newline, newline] @ ''x'')
   = ''Note: see p. 3. End'' @ [newline, newline] @ ''x''"
  by code_simp

section \<open>Storing a cached artifact\<close>

lemma store_trace_last: "store f d fs f = Some (Pickle d)"
  by (simp add: store_def store_trace_def)

lemma extract_text_fast_corrupt:
  assumes "EBOOKLIB_AVAILABLE w" and "os_stat w path = Some bs"
    and "files w (cache_file_of path bs) = Some Corrupt"
  shows "extract_text_fast w fnt path = Inr (process_book w fnt path (cache_file_of path bs))"
  using assms by (simp add: extract_text_fast_def)

text \<open>The full pass, when it gets through, stores its artifact the same way as the quick
  pass.\<close>

lemma process_full_stores:
  assumes "read_epub w (j_path j) = Inr book"
    and "paginate_full (clean_text (py_join [newline] (full_items (get_items book)))) (j_font j)
           DISPLAY_WIDTH DISPLAY_HEIGHT DISPLAY_MARGIN = Inr full_pages"
  shows "files (run_process_full j w) =
           store (j_cache_file j)
             ((j_cache_data j)\<lparr>cd_text := clean_text (py_join [newline] (full_items (get_items book))),
                               cd_pages := full_pages, cd_partial := False\<rparr>)
             (files w)"
  using assms by (simp add: run_process_full_def Let_def)

text \<open>
  Claim C3 says that every store replaces the cache file atomically, so that a reader
  never finds a half-written file. The store writes in place: while a new artifact is
  being stored over the finished one, the first state of the cache file that a reader can
  find is neither the old artifact nor the new one.
\<close>

theorem store_not_atomic:
  "hd (store_trace (cache_file_of alice_path alice_stat) (full_artifact\<lparr>cd_partial := True\<rparr>)
         (files alice_world)) (cache_file_of alice_path alice_stat)
     \<noteq> files alice_world (cache_file_of alice_path alice_stat)
   \<and> hd (store_trace (cache_file_of alice_path alice_stat) (full_artifact\<lparr>cd_partial := True\<rparr>)
         (files alice_world)) (cache_file_of alice_path alice_stat)
     \<noteq> Some (Pickle (full_artifact\<lparr>cd_partial := True\<rparr>))"
  by (simp add: store_trace_def alice_world_def)

text \<open>
  Claim C3, amended. Every store overwrites the cache file in place. The first state of
  the write that a concurrent reader can find is the truncated file: unreadable, not the
  new artifact, and not what the file held before (unless that was unreadable already).
  In every state on the way the file is either unreadable or already complete, and when the
  store has finished it holds the complete artifact. A reader that finds the file
  unreadable takes the cache for corrupt, so \<open>extract_text_fast\<close> processes the book
  again instead of failing.
\<close>

theorem store_in_place_reader_reprocesses:
  assumes "st \<in> set (store_trace (cache_file_of path bs) d (files w))"
    and "EBOOKLIB_AVAILABLE w" and "os_stat w path = Some bs"
  shows "store (cache_file_of path bs) d (files w) (cache_file_of path bs) = Some (Pickle d)
    \<and> (st (cache_file_of path bs) = Some Corrupt \<or> st (cache_file_of path bs) = Some (Pickle d))
    \<and> (st (cache_file_of path bs) = Some Corrupt \<longrightarrow>
         extract_text_fast (w\<lparr>files := st\<rparr>) fnt path
           = Inr (process_book (w\<lparr>files := st\<rparr>) fnt path (cache_file_of path bs)))
    \<and> hd (store_trace (cache_file_of path bs) d (files w))
          \<in> set (store_trace (cache_file_of path bs) d (files w))
    \<and> hd (store_trace (cache_file_of path bs) d (files w)) (cache_file_of path bs) = Some Corrupt
    \<and> hd (store_trace (cache_file_of path bs) d (files w)) (cache_file_of path bs)
          \<noteq> Some (Pickle d)
    \<and> (files w (cache_file_of path bs) \<noteq> Some Corrupt \<longrightarrow>
          hd (store_trace (cache_file_of path bs) d (files w)) (cache_file_of path bs)
            \<noteq> files w (cache_file_of path bs))
    \<and> extract_text_fast (w\<lparr>files := hd (store_trace (cache_file_of path bs) d (files w))\<rparr>) fnt path
          = Inr (process_book (w\<lparr>files := hd (store_trace (cache_file_of path bs) d (files w))\<rparr>)
                   fnt path (cache_file_of path bs))"
proof -
  let ?f = "cache_file_of path bs"
  let ?tr = "store_trace ?f d (files w)"
  have a: "st ?f = Some Corrupt \<or> st ?f = Some (Pickle d)"
    using assms(1) by (auto simp: store_trace_def)
  have b: "extract_text_fast (w\<lparr>files := s\<rparr>) fnt path
             = Inr (process_book (w\<lparr>files := s\<rparr>) fnt path ?f)"
    if "s ?f = Some Corrupt" for s
    using extract_text_fast_corrupt [of "w\<lparr>files := s\<rparr>" path bs fnt] assms(2,3) that by simp
  have c: "hd ?tr \<in> set ?tr" by (simp add: store_trace_def)
  have d: "hd ?tr ?f = Some Corrupt" by (simp add: store_trace_def)
  have e: "files w ?f \<noteq> Some Corrupt \<longrightarrow> hd ?tr ?f \<noteq> files w ?f"
    using d by auto
  show ?thesis
    using a b [of st] b [of "hd ?tr"] c d e by (simp add: store_trace_last)
qed

theorem store_in_place_witness:
  "hd (store_trace (cache_file_of alice_path alice_stat) (full_artifact\<lparr>cd_partial := True\<rparr>)
         (files alice_world)) (cache_file_of alice_path alice_stat) = Some Corrupt
   \<and> extract_text_fast
        (alice_world\<lparr>files := hd (store_trace (cache_file_of alice_path alice_stat)
                          (full_artifact\<lparr>cd_partial := True\<rparr>) (files alice_world))\<rparr>)
        mono_font alice_path
      = Inr (process_book
               (alice_world\<lparr>files := hd (store_trace (cache_file_of alice_path alice_stat)
                          (full_artifact\<lparr>cd_partial := True\<rparr>) (files alice_world))\<rparr>)
               mono_font alice_path (cache_file_of alice_path alice_stat))"
  using store_in_place_reader_reprocesses
          [of "hd (store_trace (cache_file_of alice_path alice_stat)
                  (full_artifact\<lparr>cd_partial := True\<rparr>) (files alice_world))"
              alice_path alice_stat "full_artifact\<lparr>cd_partial := True\<rparr>" alice_world mono_font]
  by (simp add: store_trace_def alice_world_def)

end
